theory Spec2Isabelle
  imports Complex_Main "HOL-Library.Multiset" "HOL-Library.Product_Lexorder"
begin

section \<open>Configuration: the module constants of Chaos.py and zen3.py\<close>

text \<open>
  Both scripts fix their grid, padding and chunk catalog as module constants
  (\<open>GRID_ROWS\<close>, \<open>GRID_COLS\<close>, \<open>OUTER_PADDING\<close>, \<open>INNER_PADDING\<close>, \<open>CHUNKS\<close>, and in
  zen3.py \<open>CHUNK_WEIGHTS\<close>).  The nested functions \<open>fits\<close> and \<open>occupy\<close> are the same text
  in both files, so the constants are collected in a record and the two scripts are the two
  values \<open>chaos\<close> and \<open>zen3\<close> of it.  A chunk is the pair \<open>(chunk_w, chunk_h)\<close>.
\<close>

record config =
  GRID_ROWS :: nat
  GRID_COLS :: nat
  OUTER_PADDING :: int
  INNER_PADDING :: int
  CHUNKS :: "(nat \<times> nat) list"
  CHUNK_WEIGHTS :: "nat list"

definition chaos :: config where
  "chaos = \<lparr> GRID_ROWS = 6, GRID_COLS = 24, OUTER_PADDING = 30, INNER_PADDING = 12,
     CHUNKS = [(6, 3), (4, 3), (3, 2), (2, 3), (2, 2), (2, 1), (1, 2), (1, 1)],
     CHUNK_WEIGHTS = [] \<rparr>"

definition zen3 :: config where
  "zen3 = \<lparr> GRID_ROWS = 8, GRID_COLS = 28, OUTER_PADDING = 20, INNER_PADDING = 6,
     CHUNKS = [(4, 2), (3, 2), (2, 3), (3, 1), (2, 2), (1, 3), (2, 1), (1, 2), (1, 1),
               (4, 1), (1, 4), (3, 3)],
     CHUNK_WEIGHTS = [2, 3, 4, 3, 5, 3, 6, 6, 10, 2, 2, 1] \<rparr>"

section \<open>The occupancy grid\<close>

type_synonym grid = "bool list list"

text \<open>\<open>grid = [[False for _ in range(GRID_COLS)] for _ in range(GRID_ROWS)]\<close>\<close>

definition new_grid :: "config \<Rightarrow> grid" where
  "new_grid cfg = replicate (GRID_ROWS cfg) (replicate (GRID_COLS cfg) False)"

text \<open>
  The cells visited by \<open>for r in range(row, row + chunk_h): for c in range(col, col + chunk_w)\<close>,
  in the order of the loops.
\<close>

definition rect_cells :: "nat \<Rightarrow> nat \<Rightarrow> nat \<Rightarrow> nat \<Rightarrow> (nat \<times> nat) list" where
  "rect_cells chunk_w chunk_h row col =
     concat (map (\<lambda>r. map (\<lambda>c. (r, c)) [col ..< col + chunk_w]) [row ..< row + chunk_h])"

text \<open>
  \<open>fits\<close>: the bounds test first, then the two loops, which return False at the first
  occupied cell.
\<close>

definition fits :: "config \<Rightarrow> grid \<Rightarrow> nat \<Rightarrow> nat \<Rightarrow> nat \<Rightarrow> nat \<Rightarrow> bool" where
  "fits cfg g chunk_w chunk_h row col =
     (if row + chunk_h > GRID_ROWS cfg \<or> col + chunk_w > GRID_COLS cfg then False
      else list_all (\<lambda>(r, c). \<not> g ! r ! c) (rect_cells chunk_w chunk_h row col))"

text \<open>\<open>occupy\<close>: \<open>grid[r][c] = True\<close> for every cell of the rectangle.\<close>

definition set_cell :: "grid \<Rightarrow> nat \<times> nat \<Rightarrow> grid" where
  "set_cell g rc = (case rc of (r, c) \<Rightarrow> g[r := (g ! r)[c := True]])"

definition occupy :: "grid \<Rightarrow> nat \<Rightarrow> nat \<Rightarrow> nat \<Rightarrow> nat \<Rightarrow> grid" where
  "occupy g chunk_w chunk_h row col = foldl set_cell g (rect_cells chunk_w chunk_h row col)"

text \<open>
  The anchors in the order of \<open>for row in range(GRID_ROWS): for col in range(GRID_COLS)\<close>.
\<close>

definition anchors :: "config \<Rightarrow> (nat \<times> nat) list" where
  "anchors cfg =
     concat (map (\<lambda>row. map (\<lambda>col. (row, col)) [0 ..< GRID_COLS cfg]) [0 ..< GRID_ROWS cfg])"

text \<open>
  The scan of Chaos.py (lines 85 to 87 with the two \<open>break\<close>s): the first anchor of the
  two loops at which \<open>fits\<close> holds, if there is one.
\<close>

definition first_fit :: "config \<Rightarrow> grid \<Rightarrow> nat \<Rightarrow> nat \<Rightarrow> (nat \<times> nat) option" where
  "first_fit cfg g chunk_w chunk_h =
     find (\<lambda>(row, col). fits cfg g chunk_w chunk_h row col) (anchors cfg)"

text \<open>A grid has the shape the constructor gave it.\<close>

definition wf_grid :: "config \<Rightarrow> grid \<Rightarrow> bool" where
  "wf_grid cfg g \<longleftrightarrow> length g = GRID_ROWS cfg \<and> list_all (\<lambda>r. length r = GRID_COLS cfg) g"

section \<open>Python floats\<close>

text \<open>
  The scaling code divides and multiplies in Python floats (IEEE 754 binary64, round to
  nearest, ties to even).  A float is modelled by the rational number it denotes, and
  \<open>to_double\<close> rounds an exact rational result to the nearest number with a 53-bit
  significand.  The exponent range is not limited: the operands here are pixel counts, far
  from the overflow and subnormal thresholds.
\<close>

datatype py_error = ZeroDivisionError | ValueError

text \<open>The number of binary digits of a positive integer.\<close>

function bitlen :: "int \<Rightarrow> nat" where
  "bitlen n = (if n \<le> 0 then 0 else Suc (bitlen (n div 2)))"
  by pat_completeness auto
termination
  by (relation "measure nat") auto

declare bitlen.simps [simp del]

definition pow2 :: "int \<Rightarrow> rat" where
  "pow2 e = (if 0 \<le> e then 2 ^ nat e else 1 / 2 ^ nat (- e))"

text \<open>For \<open>q > 0\<close>, the exponent \<open>e\<close> with \<open>2 ^ e \<le> q < 2 ^ (e + 1)\<close>.\<close>

definition ilog2 :: "rat \<Rightarrow> int" where
  "ilog2 q = (case quotient_of q of (n, d) \<Rightarrow>
     let k = int (bitlen n) - int (bitlen d)
     in if pow2 k \<le> q then k else k - 1)"

definition round_half_even :: "rat \<Rightarrow> int" where
  "round_half_even x = (let f = \<lfloor>x\<rfloor>; r = x - of_int f
     in if r < 1 / 2 then f else if 1 / 2 < r then f + 1 else if even f then f else f + 1)"

definition to_double :: "rat \<Rightarrow> rat" where
  "to_double q = (if q = 0 then 0
     else let e = ilog2 \<bar>q\<bar> - 52
          in sgn q * of_int (round_half_even (\<bar>q\<bar> / pow2 e)) * pow2 e)"

text \<open>\<open>a / b\<close> on two ints is the correctly rounded quotient, and raises on \<open>b = 0\<close>.\<close>

definition int_truediv :: "int \<Rightarrow> int \<Rightarrow> py_error + rat" where
  "int_truediv a b =
     (if b = 0 then Inl ZeroDivisionError else Inr (to_double (of_int a / of_int b)))"

text \<open>\<open>n * f\<close> and \<open>n / f\<close> with an int \<open>n\<close> and a float \<open>f\<close>: the int is converted first.\<close>

definition int_mul_float :: "int \<Rightarrow> rat \<Rightarrow> rat" where
  "int_mul_float n f = to_double (to_double (of_int n) * f)"

definition int_div_float :: "int \<Rightarrow> rat \<Rightarrow> py_error + rat" where
  "int_div_float n f =
     (if f = 0 then Inl ZeroDivisionError else Inr (to_double (to_double (of_int n) / f)))"

definition float_sub :: "rat \<Rightarrow> rat \<Rightarrow> rat" where
  "float_sub a b = to_double (a - b)"

text \<open>\<open>int(f)\<close> truncates towards zero.\<close>

definition py_int :: "rat \<Rightarrow> int" where
  "py_int f = (if 0 \<le> f then \<lfloor>f\<rfloor> else \<lceil>f\<rceil>)"

section \<open>Pixel geometry\<close>

text \<open>
  \<open>cell_width = (screen_width - 2 * OUTER_PADDING - (GRID_COLS - 1) * INNER_PADDING) // GRID_COLS\<close>
  and the same for the height with \<open>GRID_ROWS\<close>; Python's \<open>//\<close> is the floor division, as
  \<open>div\<close> on \<open>int\<close> is.
\<close>

definition cell_width :: "config \<Rightarrow> int \<Rightarrow> int" where
  "cell_width cfg screen_width =
     (screen_width - 2 * OUTER_PADDING cfg - (int (GRID_COLS cfg) - 1) * INNER_PADDING cfg)
       div int (GRID_COLS cfg)"

definition cell_height :: "config \<Rightarrow> int \<Rightarrow> int" where
  "cell_height cfg screen_height =
     (screen_height - 2 * OUTER_PADDING cfg - (int (GRID_ROWS cfg) - 1) * INNER_PADDING cfg)
       div int (GRID_ROWS cfg)"

text \<open>The four assignments to \<open>x\<close>, \<open>y\<close>, \<open>w\<close>, \<open>h\<close> (Chaos.py 93 to 96, zen3.py 159 to 162).\<close>

definition pixel_rect :: "config \<Rightarrow> int \<Rightarrow> int \<Rightarrow> nat \<Rightarrow> nat \<Rightarrow> nat \<Rightarrow> nat
    \<Rightarrow> int \<times> int \<times> int \<times> int" where
  "pixel_rect cfg cw ch chunk_w chunk_h row col =
     (let x = OUTER_PADDING cfg + int col * (cw + INNER_PADDING cfg);
          y = OUTER_PADDING cfg + int row * (ch + INNER_PADDING cfg);
          w = int chunk_w * cw + (int chunk_w - 1) * INNER_PADDING cfg;
          h = int chunk_h * ch + (int chunk_h - 1) * INNER_PADDING cfg
      in (x, y, w, h))"

section \<open>Fitting an image into its rectangle\<close>

record image =
  width :: int
  height :: int

text \<open>
  What \<open>canvas.paste(resized, (offset_x, offset_y))\<close> receives: the size the image was
  resized to, the crop box if \<open>crop\<close> was called, the size of \<open>resized\<close> when it is pasted,
  and the offset.
\<close>

record paste =
  resized_to :: "int \<times> int"
  crop_box :: "(int \<times> int \<times> int \<times> int) option"
  pasted_size :: "int \<times> int"
  offset :: "int \<times> int"

text \<open>
  \<open>aspect_img = img.width / img.height\<close>, \<open>aspect_chunk = w / h\<close> and the branch on
  \<open>aspect_img > aspect_chunk\<close>, shared by both scripts: the result is the branch taken
  (True for the first) and \<open>(new_width, new_height)\<close>.
\<close>

definition scaled_size :: "int \<Rightarrow> int \<Rightarrow> image \<Rightarrow> py_error + bool \<times> int \<times> int" where
  "scaled_size w h img =
     (case int_truediv (width img) (height img) of
        Inl e \<Rightarrow> Inl e
      | Inr aspect_img \<Rightarrow>
          (case int_truediv w h of
             Inl e \<Rightarrow> Inl e
           | Inr aspect_chunk \<Rightarrow>
               if aspect_img > aspect_chunk
               then Inr (True, py_int (int_mul_float h aspect_img), h)
               else (case int_div_float w aspect_img of
                       Inl e \<Rightarrow> Inl e
                     | Inr q \<Rightarrow> Inr (False, w, py_int q))))"

text \<open>\<open>img.resize((new_width, new_height), ...)\<close>: Pillow refuses a size below 1.\<close>

definition resize :: "int \<times> int \<Rightarrow> py_error + int \<times> int" where
  "resize sz = (case sz of (new_width, new_height) \<Rightarrow>
     if new_width < 1 \<or> new_height < 1 then Inl ValueError else Inr (new_width, new_height))"

text \<open>Chaos.py, lines 98 to 111: resize, centre, paste.\<close>

definition fit_without_crop :: "int \<times> int \<times> int \<times> int \<Rightarrow> image \<Rightarrow> py_error + paste" where
  "fit_without_crop rect img = (case rect of (x, y, w, h) \<Rightarrow>
     (case scaled_size w h img of
        Inl e \<Rightarrow> Inl e
      | Inr (wider, new_width, new_height) \<Rightarrow>
          (case resize (new_width, new_height) of
             Inl e \<Rightarrow> Inl e
           | Inr resized \<Rightarrow>
               let offset_x = x + (w - new_width) div 2;
                   offset_y = y + (h - new_height) div 2
               in Inr \<lparr> resized_to = resized, crop_box = None, pasted_size = resized,
                        offset = (offset_x, offset_y) \<rparr>)))"

text \<open>
  zen3.py, lines 164 to 187.  The offsets of lines 170 to 176 are kept when the test of
  line 180 fails; otherwise the image is cropped to the box
  \<open>(crop_x, crop_y, crop_x + w, crop_y + h)\<close> and pasted at \<open>(x, y)\<close>.  \<open>crop\<close> returns an
  image of the size of its box, and refuses a box whose right or lower edge is before the
  left or upper one.
\<close>

definition fit_with_crop :: "int \<times> int \<times> int \<times> int \<Rightarrow> image \<Rightarrow> py_error + paste" where
  "fit_with_crop rect img = (case rect of (x, y, w, h) \<Rightarrow>
     (case scaled_size w h img of
        Inl e \<Rightarrow> Inl e
      | Inr (wider, new_width, new_height) \<Rightarrow>
          let offset_x = (if wider then x - (new_width - w) div 2 else x);
              offset_y = (if wider then y else y - (new_height - h) div 2)
          in (case resize (new_width, new_height) of
                Inl e \<Rightarrow> Inl e
              | Inr resized \<Rightarrow>
                  if new_width > w \<or> new_height > h
                  then let crop_x = max 0 ((new_width - w) div 2);
                           crop_y = max 0 ((new_height - h) div 2)
                       in if w < 0 \<or> h < 0 then Inl ValueError
                          else Inr \<lparr> resized_to = resized,
                                     crop_box = Some (crop_x, crop_y, crop_x + w, crop_y + h),
                                     pasted_size = (w, h), offset = (x, y) \<rparr>
                  else Inr \<lparr> resized_to = resized, crop_box = None, pasted_size = resized,
                             offset = (offset_x, offset_y) \<rparr>)))"

section \<open>The random module\<close>

text \<open>
  The generator is a parameter: \<open>rng k\<close> is the \<open>k\<close>-th raw draw, a natural number, and the
  state counts the draws made.  \<open>random.shuffle\<close> is the loop of the standard library,
  \<open>for i in reversed(range(1, len(x))): j = randbelow(i + 1); x[i], x[j] = x[j], x[i]\<close>;
  \<open>random.choice(seq)\<close> is \<open>seq[randbelow(len(seq))]\<close>; \<open>random.choices\<close> with weights
  bisects the cumulative weights at \<open>random() * total\<close>, whose integer part is the draw
  modulo the total.
\<close>

fun shuffle_loop :: "(nat \<Rightarrow> nat) \<Rightarrow> nat list \<Rightarrow> nat \<Rightarrow> 'a list \<Rightarrow> 'a list \<times> nat" where
  "shuffle_loop rng [] k xs = (xs, k)"
| "shuffle_loop rng (i # rest) k xs =
     (let j = rng k mod (i + 1)
      in shuffle_loop rng rest (Suc k) (xs[i := xs ! j, j := xs ! i]))"

definition shuffle :: "(nat \<Rightarrow> nat) \<Rightarrow> nat \<Rightarrow> 'a list \<Rightarrow> 'a list \<times> nat" where
  "shuffle rng k xs = shuffle_loop rng (rev [1 ..< length xs]) k xs"

definition choice :: "nat \<Rightarrow> 'a list \<Rightarrow> 'a" where
  "choice r seq = seq ! (r mod length seq)"

fun accumulate :: "nat \<Rightarrow> nat list \<Rightarrow> nat list" where
  "accumulate acc [] = []"
| "accumulate acc (x # xs) = (acc + x) # accumulate (acc + x) xs"

definition choices :: "nat \<Rightarrow> 'a list \<Rightarrow> nat list \<Rightarrow> 'a" where
  "choices r population weights =
     (let cum_weights = accumulate 0 weights;
          total = last cum_weights;
          hi = length population - 1
      in population ! length (takeWhile (\<lambda>c. c \<le> r mod total) (take hi cum_weights)))"

section \<open>The state of a layout run\<close>

text \<open>
  One placement: the chunk, its anchor, the index of the image in the shuffled queue, the
  pixel rectangle \<open>(x, y, w, h)\<close> and what was pasted.
\<close>

record placement =
  chunk :: "nat \<times> nat"
  anchor :: "nat \<times> nat"
  image_no :: nat
  rect :: "int \<times> int \<times> int \<times> int"
  pasted :: paste

text \<open>
  What one pass of the main loop did with its chunk; the list of these events is kept
  beside the variables of the source, to speak about the order of the attempts.
\<close>

datatype event = Placed "nat \<times> nat" | NoFit "nat \<times> nat" | NoImage "nat \<times> nat"

text \<open>
  The local variables of the layout functions: \<open>grid\<close>, \<open>image_idx\<close>, the canvas as the list
  of its pastes in order, \<open>placement_attempts\<close> and the number of random draws (zen3.py
  only), and the exception that ended the run, if one did.
\<close>

record state =
  grid :: grid
  image_idx :: nat
  canvas :: "placement list"
  placement_attempts :: nat
  draws :: nat
  raised :: "py_error option"
  events :: "event list"

definition initial :: "config \<Rightarrow> nat \<Rightarrow> state" where
  "initial cfg k = \<lparr> grid = new_grid cfg, image_idx = 0, canvas = [], placement_attempts = 0,
     draws = k, raised = None, events = [] \<rparr>"

text \<open>
  The body both scripts run once an anchor is chosen: take the next image, compute the
  rectangle, fit and paste, occupy.  An exception of the fit ends the run.
\<close>

definition place :: "config \<Rightarrow> (int \<times> int \<times> int \<times> int \<Rightarrow> image \<Rightarrow> py_error + paste)
    \<Rightarrow> image list \<Rightarrow> int \<Rightarrow> int \<Rightarrow> nat \<times> nat \<Rightarrow> nat \<times> nat \<Rightarrow> state \<Rightarrow> state" where
  "place cfg fit images cw ch chk pos s =
     (case chk of (chunk_w, chunk_h) \<Rightarrow> case pos of (row, col) \<Rightarrow>
        let img = images ! image_idx s;
            r = pixel_rect cfg cw ch chunk_w chunk_h row col
        in (case fit r img of
              Inl e \<Rightarrow> s\<lparr> image_idx := image_idx s + 1, raised := Some e \<rparr>
            | Inr p \<Rightarrow>
                s\<lparr> grid := occupy (grid s) chunk_w chunk_h row col,
                   image_idx := image_idx s + 1,
                   canvas := canvas s @ [\<lparr> chunk = chk, anchor = pos, image_no = image_idx s,
                                           rect = r, pasted = p \<rparr>],
                   events := events s @ [Placed chk] \<rparr>))"

section \<open>Chaos.py: create_chunk_grid_layout\<close>

text \<open>
  The loop \<open>for chunk_w, chunk_h in CHUNKS * 100\<close> over the rest of its sequence.  A chunk
  with no anchor is passed over; a chunk with an anchor and no image left returns the
  canvas; the end of the sequence returns the canvas.
\<close>

fun chunk_loop :: "config \<Rightarrow> image list \<Rightarrow> int \<Rightarrow> int \<Rightarrow> (nat \<times> nat) list \<Rightarrow> state \<Rightarrow> state" where
  "chunk_loop cfg images cw ch [] s = s"
| "chunk_loop cfg images cw ch (chk # rest) s =
     (case first_fit cfg (grid s) (fst chk) (snd chk) of
        None \<Rightarrow> chunk_loop cfg images cw ch rest (s\<lparr> events := events s @ [NoFit chk] \<rparr>)
      | Some pos \<Rightarrow>
          if image_idx s \<ge> length images then s\<lparr> events := events s @ [NoImage chk] \<rparr>
          else let s' = place cfg fit_without_crop images cw ch chk pos s
               in if raised s' = None then chunk_loop cfg images cw ch rest s' else s')"

text \<open>
  The function returns None for an empty list.  \<open>Image.new\<close> refuses a negative size; this
  is before the shuffle.  The second component is the caller's list after the call:
  \<open>random.shuffle(images)\<close> works on the argument itself.
\<close>

definition create_chunk_grid_layout ::
    "(nat \<Rightarrow> nat) \<Rightarrow> image list \<Rightarrow> int \<Rightarrow> int \<Rightarrow> state option \<times> image list" where
  "create_chunk_grid_layout rng images screen_width screen_height =
     (if images = [] then (None, images)
      else let cw = cell_width chaos screen_width;
               ch = cell_height chaos screen_height
           in if screen_width < 0 \<or> screen_height < 0
              then (Some ((initial chaos 0)\<lparr> raised := Some ValueError \<rparr>), images)
              else (case shuffle rng 0 images of (images', k) \<Rightarrow>
                (Some (chunk_loop chaos images' cw ch (concat (replicate 100 (CHUNKS chaos)))
                         (initial chaos k)), images')))"

section \<open>zen3.py: create_freeflow_layout\<close>

text \<open>
  \<open>find_best_position\<close>.  The inner loops count the occupied cells of the rectangle
  widened by one cell and cut at the grid's edges; \<open>max(0, row - 1)\<close> is the truncated
  subtraction of the naturals.
\<close>

definition neighbors :: "config \<Rightarrow> grid \<Rightarrow> nat \<Rightarrow> nat \<Rightarrow> nat \<Rightarrow> nat \<Rightarrow> nat" where
  "neighbors cfg g chunk_w chunk_h row col =
     length (filter (\<lambda>(r, c). g ! r ! c)
       (concat (map (\<lambda>r. map (\<lambda>c. (r, c))
                  [max 0 (col - 1) ..< min (GRID_COLS cfg) (col + chunk_w + 1)])
          [max 0 (row - 1) ..< min (GRID_ROWS cfg) (row + chunk_h + 1)])))"

text \<open>\<open>score = neighbors - (row * 0.1) - (col * 0.05)\<close>, in floats.\<close>

definition score :: "nat \<Rightarrow> nat \<Rightarrow> nat \<Rightarrow> rat" where
  "score n row col =
     float_sub (float_sub (to_double (of_nat n)) (int_mul_float (int row) (to_double (1 / 10))))
       (int_mul_float (int col) (to_double (1 / 20)))"

definition positions :: "config \<Rightarrow> grid \<Rightarrow> nat \<Rightarrow> nat \<Rightarrow> (rat \<times> nat \<times> nat) list" where
  "positions cfg g chunk_w chunk_h =
     map (\<lambda>(row, col). (score (neighbors cfg g chunk_w chunk_h row col) row col, row, col))
       (filter (\<lambda>(row, col). fits cfg g chunk_w chunk_h row col) (anchors cfg))"

text \<open>
  \<open>positions.sort(reverse=True)\<close> orders the tuples downwards, lexicographically; they
  differ in \<open>(row, col)\<close>, so the order is total.  One draw is made when there is a
  position.  The result is the anchor and the number of draws made so far.
\<close>

definition find_best_position ::
    "config \<Rightarrow> grid \<Rightarrow> (nat \<Rightarrow> nat) \<Rightarrow> nat \<Rightarrow> nat \<Rightarrow> nat \<Rightarrow> (nat \<times> nat) option \<times> nat" where
  "find_best_position cfg g rng k chunk_w chunk_h =
     (let ps = positions cfg g chunk_w chunk_h
      in if ps \<noteq> []
         then let top_positions = take (min 5 (length ps)) (rev (sort ps))
              in (Some (snd (choice (rng k) top_positions)), Suc k)
         else (None, k))"

text \<open>\<open>get_random_chunk\<close>\<close>

definition get_random_chunk :: "config \<Rightarrow> nat \<Rightarrow> nat \<times> nat" where
  "get_random_chunk cfg r = choices r (CHUNKS cfg) (CHUNK_WEIGHTS cfg)"

text \<open>
  Lines 144 to 150: the fallback chunks in their order, stopping at the first with a
  position (a pair is true in Python, whatever its components).
\<close>

definition fallback_chunks :: "(nat \<times> nat) list" where
  "fallback_chunks = [(2, 1), (1, 2), (1, 1)]"

fun try_fallbacks :: "config \<Rightarrow> grid \<Rightarrow> (nat \<Rightarrow> nat) \<Rightarrow> nat \<Rightarrow> (nat \<times> nat) list
    \<Rightarrow> ((nat \<times> nat) \<times> (nat \<times> nat)) option \<times> nat" where
  "try_fallbacks cfg g rng k [] = (None, k)"
| "try_fallbacks cfg g rng k (fb # rest) =
     (case find_best_position cfg g rng k (fst fb) (snd fb) of
        (Some pos, k') \<Rightarrow> (Some (fb, pos), k')
      | (None, k') \<Rightarrow> try_fallbacks cfg g rng k' rest)"

text \<open>One pass of the \<open>while\<close> loop, lines 138 to 188.\<close>

definition iteration :: "config \<Rightarrow> (nat \<Rightarrow> nat) \<Rightarrow> image list \<Rightarrow> int \<Rightarrow> int \<Rightarrow> state \<Rightarrow> state" where
  "iteration cfg rng images cw ch s =
     (let s1 = s\<lparr> placement_attempts := placement_attempts s + 1 \<rparr>;
          chk = get_random_chunk cfg (rng (draws s))
      in (case find_best_position cfg (grid s) rng (Suc (draws s)) (fst chk) (snd chk) of
            (Some pos, k) \<Rightarrow> place cfg fit_with_crop images cw ch chk pos (s1\<lparr> draws := k \<rparr>)
          | (None, k) \<Rightarrow>
              (case try_fallbacks cfg (grid s) rng k fallback_chunks of
                 (Some (fb, pos), k') \<Rightarrow>
                   place cfg fit_with_crop images cw ch fb pos (s1\<lparr> draws := k' \<rparr>)
               | (None, k') \<Rightarrow> s1\<lparr> draws := k', events := events s @ [NoFit chk] \<rparr>)))"

text \<open>
  \<open>while image_idx < len(shuffled_images) and placement_attempts < max_attempts\<close>, with
  \<open>max_attempts = len(shuffled_images) * 3\<close>; an exception ends the loop.
\<close>

function freeflow_loop :: "config \<Rightarrow> (nat \<Rightarrow> nat) \<Rightarrow> image list \<Rightarrow> int \<Rightarrow> int \<Rightarrow> state \<Rightarrow> state" where
  "freeflow_loop cfg rng images cw ch s =
     (if raised s = None \<and> image_idx s < length images
         \<and> placement_attempts s < length images * 3
      then freeflow_loop cfg rng images cw ch (iteration cfg rng images cw ch s)
      else s)"
  by pat_completeness auto
termination
  by (relation "measure (\<lambda>(cfg, rng, images, cw, ch, s). length images * 3 - placement_attempts s)")
     (auto simp: iteration_def place_def Let_def split: prod.splits option.splits sum.splits)

declare freeflow_loop.simps [simp del]

text \<open>
  The function returns None for an empty list; it shuffles \<open>images.copy()\<close>, so the second
  component, the caller's list after the call, is the argument.
\<close>

definition create_freeflow_layout ::
    "(nat \<Rightarrow> nat) \<Rightarrow> image list \<Rightarrow> int \<Rightarrow> int \<Rightarrow> state option \<times> image list" where
  "create_freeflow_layout rng images screen_width screen_height =
     (if images = [] then (None, images)
      else let cw = cell_width zen3 screen_width;
               ch = cell_height zen3 screen_height
           in if screen_width < 0 \<or> screen_height < 0
              then (Some ((initial zen3 0)\<lparr> raised := Some ValueError \<rparr>), images)
              else (case shuffle rng 0 images of (shuffled_images, k) \<Rightarrow>
                (Some (freeflow_loop zen3 rng shuffled_images cw ch (initial zen3 k)), images)))"

section \<open>Predicates on placements and states\<close>

definition cells_of :: "placement \<Rightarrow> (nat \<times> nat) list" where
  "cells_of p = rect_cells (fst (chunk p)) (snd (chunk p)) (fst (anchor p)) (snd (anchor p))"

definition in_bounds :: "config \<Rightarrow> placement \<Rightarrow> bool" where
  "in_bounds cfg p \<longleftrightarrow>
     fst (anchor p) + snd (chunk p) \<le> GRID_ROWS cfg \<and>
     snd (anchor p) + fst (chunk p) \<le> GRID_COLS cfg"

definition no_overlap :: "placement list \<Rightarrow> bool" where
  "no_overlap ps \<longleftrightarrow>
     (\<forall>i \<in> set [0 ..< length ps]. \<forall>j \<in> set [0 ..< length ps].
        i \<noteq> j \<longrightarrow> list_all (\<lambda>cell. cell \<notin> set (cells_of (ps ! j))) (cells_of (ps ! i)))"

text \<open>
  What the loops keep true: the grid has its shape, every placement on the canvas is inside
  the grid with all its cells occupied, no two placements share a cell, every rectangle is
  the one \<open>pixel_rect\<close> gives, and the placements took the images in the order of the queue.
\<close>

definition grid_inv :: "config \<Rightarrow> int \<Rightarrow> int \<Rightarrow> state \<Rightarrow> bool" where
  "grid_inv cfg cw ch s \<longleftrightarrow>
     wf_grid cfg (grid s) \<and>
     (\<forall>p \<in> set (canvas s). in_bounds cfg p \<and> list_all (\<lambda>(r, c). grid s ! r ! c) (cells_of p)
        \<and> rect p = pixel_rect cfg cw ch (fst (chunk p)) (snd (chunk p))
                     (fst (anchor p)) (snd (anchor p))) \<and>
     no_overlap (canvas s) \<and>
     map image_no (canvas s) = [0 ..< length (canvas s)] \<and>
     (raised s = None \<longrightarrow> image_idx s = length (canvas s))"

text \<open>
  The specification's \<open>regionFree\<close>: the rectangle lies inside the grid and each of its
  cells is free.
\<close>

definition region_free :: "config \<Rightarrow> grid \<Rightarrow> nat \<Rightarrow> nat \<Rightarrow> nat \<Rightarrow> nat \<Rightarrow> bool" where
  "region_free cfg g w h row col \<longleftrightarrow>
     row + h \<le> GRID_ROWS cfg \<and> col + w \<le> GRID_COLS cfg \<and>
     (\<forall>r \<in> {row ..< row + h}. \<forall>c \<in> {col ..< col + w}. \<not> g ! r ! c)"

section \<open>The grid: fits and occupy\<close>

lemma rect_cells_iff:
  "(r, c) \<in> set (rect_cells w h row col) \<longleftrightarrow> row \<le> r \<and> r < row + h \<and> col \<le> c \<and> c < col + w"
  by (force simp: rect_cells_def)

lemma fits_iff:
  "fits cfg g w h row col \<longleftrightarrow>
     row + h \<le> GRID_ROWS cfg \<and> col + w \<le> GRID_COLS cfg \<and>
     (\<forall>r c. row \<le> r \<and> r < row + h \<and> col \<le> c \<and> c < col + w \<longrightarrow> \<not> g ! r ! c)"
  by (auto simp: fits_def list_all_iff rect_cells_iff)

lemma set_cell_mono: "g ! r ! c \<Longrightarrow> set_cell g rc ! r ! c"
proof (cases rc)
  case (Pair r' c')
  assume occ: "g ! r ! c"
  show ?thesis
  proof (cases "r' < length g")
    case True
    then show ?thesis using occ Pair
      by (cases "c' < length (g ! r')") (auto simp: set_cell_def nth_list_update not_less list_update_beyond)
  next
    case False
    then show ?thesis using occ Pair by (simp add: set_cell_def not_less list_update_beyond)
  qed
qed

lemma set_cell_wf: "wf_grid cfg g \<Longrightarrow> wf_grid cfg (set_cell g rc)"
proof (cases rc)
  case (Pair r c)
  assume wf: "wf_grid cfg g"
  show ?thesis
  proof (cases "r < length g")
    case True
    have "set (g[r := (g ! r)[c := True]]) \<subseteq> insert ((g ! r)[c := True]) (set g)"
      by (rule set_update_subset_insert)
    moreover have "length ((g ! r)[c := True]) = GRID_COLS cfg"
      using wf True by (simp add: wf_grid_def list_all_iff)
    ultimately show ?thesis using wf Pair
      by (auto simp: wf_grid_def list_all_iff set_cell_def)
  next
    case False
    then show ?thesis using wf Pair by (simp add: set_cell_def not_less list_update_beyond)
  qed
qed

lemma set_cell_hit:
  "wf_grid cfg g \<Longrightarrow> r < GRID_ROWS cfg \<Longrightarrow> c < GRID_COLS cfg \<Longrightarrow> set_cell g (r, c) ! r ! c"
  by (simp add: wf_grid_def list_all_iff set_cell_def)

lemma foldl_set_cell_mono: "g ! r ! c \<Longrightarrow> foldl set_cell g cells ! r ! c"
  by (induction cells arbitrary: g) (simp_all add: set_cell_mono)

lemma foldl_set_cell_wf: "wf_grid cfg g \<Longrightarrow> wf_grid cfg (foldl set_cell g cells)"
  by (induction cells arbitrary: g) (simp_all add: set_cell_wf)

lemma foldl_set_cell_hit:
  "wf_grid cfg g \<Longrightarrow> (r, c) \<in> set cells \<Longrightarrow> r < GRID_ROWS cfg \<Longrightarrow> c < GRID_COLS cfg
     \<Longrightarrow> foldl set_cell g cells ! r ! c"
proof (induction cells arbitrary: g)
  case Nil
  then show ?case by simp
next
  case (Cons x cells)
  show ?case
  proof (cases "x = (r, c)")
    case True
    then have "set_cell g x ! r ! c" using Cons.prems by (simp add: set_cell_hit)
    then show ?thesis by (simp add: foldl_set_cell_mono)
  next
    case False
    then show ?thesis using Cons by (simp add: set_cell_wf)
  qed
qed

lemma occupy_mono: "g ! r ! c \<Longrightarrow> occupy g w h row col ! r ! c"
  by (simp add: occupy_def foldl_set_cell_mono)

lemma occupy_wf: "wf_grid cfg g \<Longrightarrow> wf_grid cfg (occupy g w h row col)"
  by (simp add: occupy_def foldl_set_cell_wf)

lemma occupy_hit:
  "wf_grid cfg g \<Longrightarrow> row + h \<le> GRID_ROWS cfg \<Longrightarrow> col + w \<le> GRID_COLS cfg
     \<Longrightarrow> (r, c) \<in> set (rect_cells w h row col) \<Longrightarrow> occupy g w h row col ! r ! c"
  unfolding occupy_def
  by (rule foldl_set_cell_hit) (auto simp: rect_cells_iff)

lemma new_grid_wf: "wf_grid cfg (new_grid cfg)"
  by (simp add: wf_grid_def new_grid_def list_all_iff)

lemma new_grid_free: "r < GRID_ROWS cfg \<Longrightarrow> c < GRID_COLS cfg \<Longrightarrow> \<not> new_grid cfg ! r ! c"
  by (simp add: new_grid_def)

lemma fits_region_free: "fits cfg g w h row col \<longleftrightarrow> region_free cfg g w h row col"
  by (auto simp: fits_iff region_free_def)

section \<open>The row-major scan of Chaos.py\<close>

lemma find_app:
  "find P (xs @ ys) = (case find P xs of None \<Rightarrow> find P ys | Some x \<Rightarrow> Some x)"
  by (induction xs) simp_all

lemma find_cols_Some:
  "sorted_wrt (<) (cols :: nat list) \<Longrightarrow> find P (map (Pair row) cols) = Some x \<Longrightarrow>
     \<exists>col. x = (row, col) \<and> col \<in> set cols \<and> P (row, col) \<and>
           (\<forall>col' \<in> set cols. col' < col \<longrightarrow> \<not> P (row, col'))"
proof (induction cols)
  case Nil
  then show ?case by simp
next
  case (Cons a cols)
  show ?case
  proof (cases "P (row, a)")
    case True
    then show ?thesis using Cons.prems by (fastforce dest: less_asym)
  next
    case False
    then have "find P (map (Pair row) cols) = Some x" using Cons.prems by simp
    moreover have "sorted_wrt (<) cols" using Cons.prems by simp
    ultimately obtain col where c: "x = (row, col)" "col \<in> set cols" "P (row, col)"
        "\<forall>col' \<in> set cols. col' < col \<longrightarrow> \<not> P (row, col')"
      using Cons.IH by blast
    then show ?thesis using False by auto
  qed
qed

lemma find_cols_None:
  "find P (map (Pair row) cols) = None \<longleftrightarrow> (\<forall>col \<in> set cols. \<not> P (row, col))"
  by (auto simp: find_None_iff)

lemma find_rows_Some:
  "sorted_wrt (<) (rows :: nat list) \<Longrightarrow> sorted_wrt (<) (cols :: nat list) \<Longrightarrow>
   find P (concat (map (\<lambda>row. map (Pair row) cols) rows)) = Some (row, col) \<Longrightarrow>
     row \<in> set rows \<and> col \<in> set cols \<and> P (row, col) \<and>
     (\<forall>row' \<in> set rows. \<forall>col' \<in> set cols.
        row' < row \<or> row' = row \<and> col' < col \<longrightarrow> \<not> P (row', col'))"
proof (induction rows)
  case Nil
  then show ?case by simp
next
  case (Cons a rows)
  have later: "\<forall>r \<in> set rows. a < r" using Cons.prems(1) by simp
  show ?case
  proof (cases "find P (map (Pair a) cols)")
    case None
    then have "find P (concat (map (\<lambda>row. map (Pair row) cols) rows)) = Some (row, col)"
      using Cons.prems(3) by (simp add: find_app)
    moreover have "sorted_wrt (<) rows" using Cons.prems(1) by simp
    ultimately have ih: "row \<in> set rows \<and> col \<in> set cols \<and> P (row, col) \<and>
        (\<forall>row' \<in> set rows. \<forall>col' \<in> set cols.
           row' < row \<or> row' = row \<and> col' < col \<longrightarrow> \<not> P (row', col'))"
      using Cons.IH Cons.prems(2) by blast
    have "\<forall>col' \<in> set cols. \<not> P (a, col')" using None by (simp add: find_cols_None)
    then show ?thesis using ih later by auto
  next
    case (Some x)
    then have "x = (row, col)" using Cons.prems(3) by (simp add: find_app)
    then obtain c where c: "(row, col) = (a, c)" "c \<in> set cols" "P (a, c)"
        "\<forall>col' \<in> set cols. col' < c \<longrightarrow> \<not> P (a, col')"
      using find_cols_Some [OF Cons.prems(2) Some] by auto
    then show ?thesis using later by auto
  qed
qed

lemma find_rows_None:
  "find P (concat (map (\<lambda>row. map (Pair row) cols) rows)) = None \<longleftrightarrow>
     (\<forall>row \<in> set rows. \<forall>col \<in> set cols. \<not> P (row, col))"
  by (auto simp: find_None_iff)

lemma first_fit_Some:
  assumes "first_fit cfg g w h = Some (row, col)"
  shows "row < GRID_ROWS cfg \<and> col < GRID_COLS cfg \<and> fits cfg g w h row col \<and>
     (\<forall>row' col'. row' < GRID_ROWS cfg \<and> col' < GRID_COLS cfg \<and>
        (row' < row \<or> row' = row \<and> col' < col) \<longrightarrow> \<not> fits cfg g w h row' col')"
proof -
  have "find (\<lambda>(row, col). fits cfg g w h row col)
          (concat (map (\<lambda>row. map (Pair row) [0 ..< GRID_COLS cfg]) [0 ..< GRID_ROWS cfg]))
        = Some (row, col)"
    using assms by (simp add: first_fit_def anchors_def)
  from find_rows_Some [OF _ _ this] show ?thesis
    by auto
qed

lemma first_fit_None:
  "first_fit cfg g w h = None \<longleftrightarrow>
     (\<forall>row col. row < GRID_ROWS cfg \<and> col < GRID_COLS cfg \<longrightarrow> \<not> fits cfg g w h row col)"
  unfolding first_fit_def anchors_def
  by (auto simp: find_rows_None)

text \<open>
  Claim C4.  The scan of the deterministic mode returns the first anchor, rows from the top
  and columns from the left within a row, at which the chunk's rectangle is inside the grid
  and fully free: the anchor it returns is such an anchor and no earlier anchor is; it
  returns none only when no anchor is.  For the chunk 2 x 1 on the empty 6 x 24 grid it
  returns (0, 0).
\<close>

theorem first_fit_row_major:
  "(first_fit cfg g w h = Some (row, col) \<longrightarrow>
      row < GRID_ROWS cfg \<and> col < GRID_COLS cfg \<and> region_free cfg g w h row col \<and>
      (\<forall>row' col'. row' < GRID_ROWS cfg \<and> col' < GRID_COLS cfg \<and>
         (row' < row \<or> row' = row \<and> col' < col) \<longrightarrow> \<not> region_free cfg g w h row' col')) \<and>
   (first_fit cfg g w h = None \<longleftrightarrow>
      (\<forall>row' col'. row' < GRID_ROWS cfg \<and> col' < GRID_COLS cfg
         \<longrightarrow> \<not> region_free cfg g w h row' col')) \<and>
   first_fit chaos (new_grid chaos) 2 1 = Some (0, 0)"
proof -
  have "first_fit chaos (new_grid chaos) 2 1 = Some (0, 0)"
    by code_simp
  then show ?thesis
    using first_fit_Some [of cfg g w h row col] first_fit_None [of cfg g w h]
    by (simp add: fits_region_free)
qed

theorem first_fit_row_major_witness:
  "first_fit chaos (occupy (new_grid chaos) 6 3 0 0) 4 3 = Some (0, 6) \<and>
   region_free chaos (occupy (new_grid chaos) 6 3 0 0) 4 3 0 6 \<and>
   \<not> region_free chaos (occupy (new_grid chaos) 6 3 0 0) 4 3 0 5"
proof -
  have found: "first_fit chaos (occupy (new_grid chaos) 6 3 0 0) 4 3 = Some (0, 6)"
    by code_simp
  have dims: "(0::nat) < GRID_ROWS chaos" "(5::nat) < GRID_COLS chaos"
    by (simp_all add: chaos_def)
  show ?thesis
    using first_fit_row_major [of chaos "occupy (new_grid chaos) 6 3 0 0" 4 3 0 6] found dims
    by simp
qed

section \<open>The invariant of the layout loops\<close>

lemma no_overlap_snoc:
  assumes "no_overlap ps" and "\<forall>q \<in> set ps. set (cells_of q) \<inter> set (cells_of p) = {}"
  shows "no_overlap (ps @ [p])"
proof -
  have *: "set (cells_of ((ps @ [p]) ! i)) \<inter> set (cells_of ((ps @ [p]) ! j)) = {}"
    if "i < Suc (length ps)" "j < Suc (length ps)" "i \<noteq> j" for i j
  proof (cases "i < length ps")
    case True
    note i = this
    show ?thesis
    proof (cases "j < length ps")
      case True
      then have "list_all (\<lambda>cell. cell \<notin> set (cells_of (ps ! j))) (cells_of (ps ! i))"
        using assms(1) i that(3) by (simp add: no_overlap_def)
      then show ?thesis using i True by (auto simp: nth_append list_all_iff)
    next
      case False
      then have "j = length ps" using that(2) by simp
      then show ?thesis using assms(2) i by (auto simp: nth_append)
    qed
  next
    case False
    then have i: "i = length ps" using that(1) by simp
    then have "j < length ps" using that(2,3) by simp
    then show ?thesis using assms(2) i by (auto simp: nth_append)
  qed
  show ?thesis
    unfolding no_overlap_def list_all_iff
  proof (intro ballI impI)
    fix i j cell
    assume "i \<in> set [0 ..< length (ps @ [p])]" "j \<in> set [0 ..< length (ps @ [p])]" "i \<noteq> j"
      and "cell \<in> set (cells_of ((ps @ [p]) ! i))"
    then show "cell \<notin> set (cells_of ((ps @ [p]) ! j))"
      using * [of i j] by auto
  qed
qed

lemma place_raised_or_grows:
  "raised (place cfg fit images cw ch chk pos s) = None \<Longrightarrow>
     \<exists>p. fit (pixel_rect cfg cw ch (fst chk) (snd chk) (fst pos) (snd pos)) (images ! image_idx s) = Inr p"
  by (cases chk; cases pos) (auto simp: place_def Let_def split: sum.splits)

lemma place_inv:
  assumes inv: "grid_inv cfg cw ch s" and run: "raised s = None"
    and fit: "fits cfg (grid s) (fst chk) (snd chk) (fst pos) (snd pos)"
  shows "grid_inv cfg cw ch (place cfg fit_fn images cw ch chk pos s)"
proof -
  obtain w h where chk: "chk = (w, h)" by (cases chk)
  obtain row col where pos: "pos = (row, col)" by (cases pos)
  let ?r = "pixel_rect cfg cw ch w h row col"
  show ?thesis
  proof (cases "fit_fn ?r (images ! image_idx s)")
    case (Inl e)
    then have "place cfg fit_fn images cw ch chk pos s
        = s\<lparr> image_idx := image_idx s + 1, raised := Some e \<rparr>"
      by (simp add: place_def chk pos)
    then show ?thesis using inv by (simp add: grid_inv_def)
  next
    case (Inr p)
    let ?new = "\<lparr> chunk = (w, h), anchor = (row, col), image_no = image_idx s, rect = ?r,
      pasted = p \<rparr>"
    let ?g = "occupy (grid s) w h row col"
    have eq: "place cfg fit_fn images cw ch chk pos s
        = s\<lparr> grid := ?g, image_idx := image_idx s + 1, canvas := canvas s @ [?new],
              events := events s @ [Placed chk] \<rparr>"
      using Inr by (simp add: place_def chk pos)
    have wf: "wf_grid cfg (grid s)" using inv by (simp add: grid_inv_def)
    have bounds: "row + h \<le> GRID_ROWS cfg" "col + w \<le> GRID_COLS cfg"
      and free: "\<forall>(r, c) \<in> set (rect_cells w h row col). \<not> grid s ! r ! c"
      using fit by (auto simp: fits_iff chk pos rect_cells_iff)
    have idx: "image_idx s = length (canvas s)" using inv run by (simp add: grid_inv_def)
    have cells_new: "cells_of ?new = rect_cells w h row col"
      by (simp add: cells_of_def)
    have occ: "grid s ! r ! c" if "q \<in> set (canvas s)" "(r, c) \<in> set (cells_of q)" for q r c
      using inv that by (auto simp: grid_inv_def list_all_iff)
    have old: "in_bounds cfg q \<and> list_all (\<lambda>(r, c). ?g ! r ! c) (cells_of q)
        \<and> rect q = pixel_rect cfg cw ch (fst (chunk q)) (snd (chunk q))
                     (fst (anchor q)) (snd (anchor q))"
      if "q \<in> set (canvas s)" for q
      using inv that occ by (auto simp: grid_inv_def list_all_iff intro!: occupy_mono)
    have new: "in_bounds cfg ?new \<and> list_all (\<lambda>(r, c). ?g ! r ! c) (cells_of ?new)
        \<and> rect ?new = pixel_rect cfg cw ch (fst (chunk ?new)) (snd (chunk ?new))
                     (fst (anchor ?new)) (snd (anchor ?new))"
      using bounds wf by (auto simp: in_bounds_def cells_new list_all_iff intro!: occupy_hit)
    have disj: "set (cells_of q) \<inter> set (cells_of ?new) = {}" if "q \<in> set (canvas s)" for q
      using occ [OF that] free cells_new by fastforce
    have "no_overlap (canvas s @ [?new])"
      using inv disj by (intro no_overlap_snoc) (auto simp: grid_inv_def)
    moreover have "map image_no (canvas s @ [?new]) = [0 ..< length (canvas s @ [?new])]"
      using inv idx by (simp add: grid_inv_def)
    ultimately show ?thesis
      unfolding eq using old new idx run
      by (auto simp: grid_inv_def occupy_wf [OF wf])
  qed
qed

lemma place_mono: "grid s ! r ! c \<Longrightarrow> grid (place cfg fit_fn images cw ch chk pos s) ! r ! c"
  by (cases chk; cases pos) (auto simp: place_def Let_def occupy_mono split: sum.splits)

lemma grid_inv_events [simp]: "grid_inv cfg cw ch (s\<lparr> events := e \<rparr>) = grid_inv cfg cw ch s"
  by (simp add: grid_inv_def)

lemma chunk_loop_inv:
  "grid_inv cfg cw ch s \<Longrightarrow> raised s = None
     \<Longrightarrow> grid_inv cfg cw ch (chunk_loop cfg images cw ch chunks s)"
proof (induction chunks arbitrary: s)
  case Nil
  then show ?case by simp
next
  case (Cons chk chunks)
  show ?case
  proof (cases "first_fit cfg (grid s) (fst chk) (snd chk)")
    case None
    then show ?thesis using Cons by simp
  next
    case (Some pos)
    then have "fits cfg (grid s) (fst chk) (snd chk) (fst pos) (snd pos)"
      using first_fit_Some [of cfg "grid s" "fst chk" "snd chk" "fst pos" "snd pos"] by simp
    then have "grid_inv cfg cw ch (place cfg fit_without_crop images cw ch chk pos s)"
      using Cons.prems by (rule place_inv [rotated 2])
    then show ?thesis using Some Cons by (simp add: Let_def)
  qed
qed

lemma chunk_loop_mono:
  "grid s ! r ! c \<Longrightarrow> grid (chunk_loop cfg images cw ch chunks s) ! r ! c"
proof (induction chunks arbitrary: s)
  case Nil
  then show ?case by simp
next
  case (Cons chk chunks)
  then show ?case
    by (cases "first_fit cfg (grid s) (fst chk) (snd chk)") (simp_all add: Let_def place_mono)
qed

section \<open>The invariant in zen3.py\<close>

lemma set_anchors: "set (anchors cfg) = {(row, col). row < GRID_ROWS cfg \<and> col < GRID_COLS cfg}"
  by (force simp: anchors_def)

lemma choice_mem: "seq \<noteq> [] \<Longrightarrow> choice r seq \<in> set seq"
  unfolding choice_def by (rule nth_mem) simp

lemma positions_fits: "(sc, row, col) \<in> set (positions cfg g w h) \<Longrightarrow> fits cfg g w h row col"
  by (auto simp: positions_def)

lemma positions_empty:
  "positions cfg g w h = [] \<longleftrightarrow>
     (\<forall>row col. row < GRID_ROWS cfg \<and> col < GRID_COLS cfg \<longrightarrow> \<not> fits cfg g w h row col)"
  by (auto simp: positions_def filter_empty_conv set_anchors)

lemma find_best_position_Some:
  assumes "find_best_position cfg g rng k w h = (Some pos, k')"
  shows "fits cfg g w h (fst pos) (snd pos) \<and> k' = Suc k"
proof -
  let ?ps = "positions cfg g w h"
  let ?top = "take (min 5 (length ?ps)) (rev (sort ?ps))"
  have ne: "?ps \<noteq> []" using assms by (auto simp: find_best_position_def Let_def split: if_splits)
  then have "?top \<noteq> []" by (cases ?ps) auto
  then have "choice (rng k) ?top \<in> set ?top" by (rule choice_mem)
  then have "choice (rng k) ?top \<in> set ?ps" by (auto dest: in_set_takeD)
  moreover have "pos = snd (choice (rng k) ?top)" and "k' = Suc k"
    using assms ne by (auto simp: find_best_position_def Let_def)
  ultimately show ?thesis
    using positions_fits [of "fst (choice (rng k) ?top)" "fst pos" "snd pos" cfg g w h] by simp
qed

lemma find_best_position_None:
  "find_best_position cfg g rng k w h = (None, k') \<longleftrightarrow>
     k' = k \<and> (\<forall>row col. row < GRID_ROWS cfg \<and> col < GRID_COLS cfg \<longrightarrow> \<not> fits cfg g w h row col)"
  by (auto simp: find_best_position_def Let_def positions_empty [symmetric])

lemma try_fallbacks_Some:
  "try_fallbacks cfg g rng k fbs = (Some (fb, pos), k') \<Longrightarrow>
     fb \<in> set fbs \<and> fits cfg g (fst fb) (snd fb) (fst pos) (snd pos)"
proof (induction fbs arbitrary: k)
  case Nil
  then show ?case by simp
next
  case (Cons a fbs)
  obtain r k1 where r: "find_best_position cfg g rng k (fst a) (snd a) = (r, k1)"
    by (cases "find_best_position cfg g rng k (fst a) (snd a)")
  show ?case
  proof (cases r)
    case None
    then show ?thesis using Cons r by auto
  next
    case (Some p)
    then show ?thesis using Cons.prems r find_best_position_Some [of cfg g rng k "fst a" "snd a" p k1]
      by auto
  qed
qed

lemma grid_inv_attempts [simp]:
  "grid_inv cfg cw ch (s\<lparr> placement_attempts := n \<rparr>) = grid_inv cfg cw ch s"
  by (simp add: grid_inv_def)

lemma grid_inv_draws [simp]: "grid_inv cfg cw ch (s\<lparr> draws := n \<rparr>) = grid_inv cfg cw ch s"
  by (simp add: grid_inv_def)

lemma iteration_inv:
  assumes "grid_inv cfg cw ch s" and "raised s = None"
  shows "grid_inv cfg cw ch (iteration cfg rng images cw ch s)"
proof -
  let ?chk = "get_random_chunk cfg (rng (draws s))"
  obtain r k where r: "find_best_position cfg (grid s) rng (Suc (draws s)) (fst ?chk) (snd ?chk) = (r, k)"
    by (cases "find_best_position cfg (grid s) rng (Suc (draws s)) (fst ?chk) (snd ?chk)")
  show ?thesis
  proof (cases r)
    case (Some pos)
    have "fits cfg (grid s) (fst ?chk) (snd ?chk) (fst pos) (snd pos)"
      using find_best_position_Some r Some by blast
    then have "grid_inv cfg cw ch (place cfg fit_with_crop images cw ch ?chk pos
        (s\<lparr> placement_attempts := placement_attempts s + 1, draws := k \<rparr>))"
      using assms by (intro place_inv) simp_all
    then show ?thesis using r Some by (simp add: iteration_def Let_def)
  next
    case None
    obtain f k' where f: "try_fallbacks cfg (grid s) rng k fallback_chunks = (f, k')"
      by (cases "try_fallbacks cfg (grid s) rng k fallback_chunks")
    show ?thesis
    proof (cases f)
      case None
      then show ?thesis using r \<open>r = None\<close> f assms by (simp add: iteration_def Let_def)
    next
      case (Some fp)
      obtain fb pos where fp: "fp = (fb, pos)" by (cases fp)
      have "fits cfg (grid s) (fst fb) (snd fb) (fst pos) (snd pos)"
        using try_fallbacks_Some f Some fp by blast
      then have "grid_inv cfg cw ch (place cfg fit_with_crop images cw ch fb pos
          (s\<lparr> placement_attempts := placement_attempts s + 1, draws := k' \<rparr>))"
        using assms by (intro place_inv) simp_all
      then show ?thesis using r \<open>r = None\<close> f Some fp by (simp add: iteration_def Let_def)
    qed
  qed
qed

lemma iteration_mono: "grid s ! r ! c \<Longrightarrow> grid (iteration cfg rng images cw ch s) ! r ! c"
  by (auto simp: iteration_def Let_def split: prod.splits option.splits intro!: place_mono)

lemma place_attempts [simp]:
  "placement_attempts (place cfg fit_fn images cw ch chk pos s) = placement_attempts s"
  by (cases chk; cases pos) (auto simp: place_def Let_def split: sum.splits)

lemma iteration_attempts:
  "placement_attempts (iteration cfg rng images cw ch s) = placement_attempts s + 1"
  by (auto simp: iteration_def Let_def split: prod.splits option.splits)

lemma freeflow_loop_inv:
  "grid_inv cfg cw ch s \<Longrightarrow> grid_inv cfg cw ch (freeflow_loop cfg rng images cw ch s)"
proof (induction cfg rng images cw ch s rule: freeflow_loop.induct)
  case (1 cfg rng images cw ch s)
  show ?case
  proof (cases "raised s = None \<and> image_idx s < length images
      \<and> placement_attempts s < length images * 3")
    case True
    then have "grid_inv cfg cw ch (iteration cfg rng images cw ch s)"
      using "1.prems" by (simp add: iteration_inv)
    then show ?thesis using True "1.IH" by (subst freeflow_loop.simps) simp
  next
    case False
    then show ?thesis using "1.prems" by (subst freeflow_loop.simps) auto
  qed
qed

lemma freeflow_loop_mono:
  "grid s ! r ! c \<Longrightarrow> grid (freeflow_loop cfg rng images cw ch s) ! r ! c"
proof (induction cfg rng images cw ch s rule: freeflow_loop.induct)
  case (1 cfg rng images cw ch s)
  show ?case
  proof (cases "raised s = None \<and> image_idx s < length images
      \<and> placement_attempts s < length images * 3")
    case True
    then show ?thesis using "1.prems" "1.IH" iteration_mono
      by (subst freeflow_loop.simps) simp
  next
    case False
    then show ?thesis using "1.prems" by (subst freeflow_loop.simps) auto
  qed
qed

lemma freeflow_loop_attempts:
  "placement_attempts (freeflow_loop cfg rng images cw ch s)
     \<le> max (placement_attempts s) (length images * 3)"
proof (induction cfg rng images cw ch s rule: freeflow_loop.induct)
  case (1 cfg rng images cw ch s)
  show ?case
  proof (cases "raised s = None \<and> image_idx s < length images
      \<and> placement_attempts s < length images * 3")
    case True
    then show ?thesis using "1.IH" iteration_attempts [of cfg rng images cw ch s]
      by (subst freeflow_loop.simps) simp
  next
    case False
    then show ?thesis by (subst freeflow_loop.simps) auto
  qed
qed

lemma initial_inv: "grid_inv cfg cw ch (initial cfg k)"
  by (simp add: grid_inv_def initial_def new_grid_wf no_overlap_def)

end
